theory Spec2Isabelle
  imports Complex_Main
begin

section \<open>The virtualized grid of the Excel/VBA assistant\<close>

text \<open>
  A shallow embedding of the \<^verbatim>\<open>ExcelGrid\<close> component and of the part of \<^verbatim>\<open>App\<close>
  that owns the sheet data (both in \<^verbatim>\<open>src/frontend/src/App.tsx\<close>).

  Conventions of the model.
  \<^item> Row and column indices are JavaScript integers: \<^typ>\<open>int\<close>.
  \<^item> Pixel quantities (scroll offsets, client sizes, pointer positions, widths) are
    JavaScript numbers; they are modelled as exact \<^typ>\<open>real\<close>s, so \<^verbatim>\<open>Math.floor\<close>
    and \<^verbatim>\<open>Math.ceil\<close> are \<^const>\<open>floor\<close> and \<^const>\<open>ceiling\<close>. Rounding of doubles,
    \<^verbatim>\<open>NaN\<close> and infinities are outside the model.
  \<^item> A React state variable is a field of the record \<open>GridState\<close>; a handler is a
    function from the state before the event to the state after the re-render that
    follows it, together with the list of calls made to the callbacks of the parent.
\<close>

subsection \<open>Configuration (lines 829-833)\<close>

definition CELL_HEIGHT :: real where "CELL_HEIGHT = 25"
definition DEFAULT_CELL_WIDTH :: real where "DEFAULT_CELL_WIDTH = 100"
definition MIN_CELL_WIDTH :: real where "MIN_CELL_WIDTH = 50"
definition ROW_HEADER_WIDTH :: real where "ROW_HEADER_WIDTH = 60"
definition VISIBLE_BUFFER :: int where "VISIBLE_BUFFER = 5"

subsection \<open>Data model (lines 811-844)\<close>

text \<open>A cell position \<^verbatim>\<open>{row, col}\<close> is the pair \<open>(row, col)\<close>.\<close>

type_synonym CellPos = "int \<times> int"

record CellSelection =
  sel_start :: CellPos
  sel_end :: CellPos

text \<open>
  \<^verbatim>\<open>ExcelGridProps\<close>: both callbacks are optional in the interface; the flags say
  whether the parent supplied them. The \<^verbatim>\<open>data\<close> prop is passed to the functions
  that read it.
\<close>

record ExcelGridProps =
  onCellChange_given :: bool
  onSelectionChange_given :: bool

text \<open>A call made by the component to one of the two callbacks of its parent.\<close>

datatype callback =
    CellChange int int string
  | SelectionChange CellSelection

text \<open>
  The state of the component. The last field is not a \<^verbatim>\<open>useState\<close> variable:
  \<^verbatim>\<open>handleMouseDown\<close> is memoized with the dependency list
  \<^verbatim>\<open>[editingCell, onSelectionChange]\<close> (line 954), which names neither \<^verbatim>\<open>saveEdit\<close>
  nor \<^verbatim>\<open>editValue\<close>. The \<^verbatim>\<open>saveEdit\<close> it calls is therefore the one of the render
  in which \<^verbatim>\<open>handleMouseDown\<close> was last re-created, and that closure reads the
  \<^verbatim>\<open>editValue\<close> of that render. \<open>capturedEditValue\<close> is that value. It is refreshed
  by every handler that gives \<^verbatim>\<open>editingCell\<close> a new identity (a fresh object, or a
  change between an object and \<^verbatim>\<open>null\<close>); \<^verbatim>\<open>onSelectionChange\<close> is stable, since
  \<^verbatim>\<open>App\<close> passes a \<^verbatim>\<open>useCallback\<close> with an empty dependency list (lines 615-617).
\<close>

record GridState =
  columnWidths :: "int \<rightharpoonup> real"
  selection :: "CellSelection option"
  isSelecting :: bool
  editingCell :: "CellPos option"
  editValue :: string
  scrollPosition :: "real \<times> real"
  resizingColumn :: "int option"
  resizeStartX :: real
  resizeStartWidth :: real
  capturedEditValue :: string

definition initialState :: GridState where
  "initialState =
     \<lparr>columnWidths = Map.empty, selection = None, isSelecting = False,
      editingCell = None, editValue = [], scrollPosition = (0, 0),
      resizingColumn = None, resizeStartX = 0, resizeStartWidth = 0,
      capturedEditValue = []\<rparr>"

record VisibleRange =
  startRow :: int
  endRow :: int
  startCol :: int
  endCol :: int

subsection \<open>Dimensions (lines 852-863)\<close>

definition totalRows :: "string list list \<Rightarrow> int" where
  "totalRows grid = int (length grid)"

definition totalCols :: "string list list \<Rightarrow> int" where
  "totalCols grid = fold max (map (\<lambda>r. int (length r)) grid) 0"

text \<open>\<^verbatim>\<open>columnWidths[col] || DEFAULT_CELL_WIDTH\<close>: a missing entry and the number 0 are falsy.\<close>

definition widthOf :: "(int \<rightharpoonup> real) \<Rightarrow> int \<Rightarrow> real" where
  "widthOf cw c =
     (case cw c of None \<Rightarrow> DEFAULT_CELL_WIDTH
      | Some w \<Rightarrow> if w = 0 then DEFAULT_CELL_WIDTH else w)"

text \<open>\<^verbatim>\<open>data[row]?.[col] || ''\<close>: a missing row or a missing cell reads as the empty string.\<close>

definition cellValue :: "string list list \<Rightarrow> int \<Rightarrow> int \<Rightarrow> string" where
  "cellValue grid r c =
     (if 0 \<le> r \<and> r < int (length grid)
      then (if 0 \<le> c \<and> c < int (length (grid ! nat r)) then grid ! nat r ! nat c else [])
      else [])"

subsection \<open>The visible range (lines 866-905)\<close>

text \<open>
  The column scan of lines 886-900. The arguments after the column index are the loop
  variables \<^verbatim>\<open>startCol\<close>, \<^verbatim>\<open>startFound\<close> and \<^verbatim>\<open>accumulatedWidth\<close>; the result is
  \<^verbatim>\<open>(startCol, endCol)\<close> at the exit of the loop, where \<^verbatim>\<open>endCol\<close> is still 0 when the
  loop ran to \<^verbatim>\<open>totalCols\<close> without reaching the \<^verbatim>\<open>break\<close>.
\<close>

function scanColumns ::
  "int \<Rightarrow> (int \<rightharpoonup> real) \<Rightarrow> real \<Rightarrow> real \<Rightarrow> int \<Rightarrow> int \<Rightarrow> bool \<Rightarrow> real \<Rightarrow> int \<times> int"
where
  "scanColumns nCols cw scrollX containerWidth c sc startFound acc =
     (if c < nCols then
        (let colWidth = widthOf cw c;
             hit = (\<not> startFound \<and> acc + colWidth > scrollX);
             sc' = (if hit then max 0 (c - VISIBLE_BUFFER) else sc);
             startFound' = (if hit then True else startFound)
         in if acc > scrollX + containerWidth + of_int VISIBLE_BUFFER * DEFAULT_CELL_WIDTH
            then (sc', c)
            else scanColumns nCols cw scrollX containerWidth (c + 1) sc' startFound'
                   (acc + colWidth))
      else (sc, 0))"
  by pat_completeness auto
termination
  by (relation "measure (\<lambda>(nCols, cw, scrollX, containerWidth, c, sc, startFound, acc).
        nat (nCols - c))") auto

declare scanColumns.simps [simp del]

text \<open>
  The container is \<open>None\<close> while \<^verbatim>\<open>scrollContainerRef.current\<close> is null (the first
  render), and \<open>Some (clientWidth, clientHeight)\<close> once it is mounted. The range is
  memoized on the scroll position, the grid dimensions and the column widths (line 905),
  so the container it was computed from is the one present when one of them last
  changed: that is the container passed here.
\<close>

definition visibleRange ::
  "(real \<times> real) option \<Rightarrow> real \<times> real \<Rightarrow> int \<Rightarrow> int \<Rightarrow> (int \<rightharpoonup> real) \<Rightarrow> VisibleRange"
where
  "visibleRange container scroll nRows nCols cw =
     (case container of
        None \<Rightarrow> \<lparr>startRow = 0, endRow = 50, startCol = 0, endCol = 20\<rparr>
      | Some (clientWidth, clientHeight) \<Rightarrow>
          (let containerHeight = clientHeight - CELL_HEIGHT;
               containerWidth = clientWidth - ROW_HEADER_WIDTH;
               sr = max 0 (\<lfloor>snd scroll / CELL_HEIGHT\<rfloor> - VISIBLE_BUFFER);
               er = min nRows (\<lceil>(snd scroll + containerHeight) / CELL_HEIGHT\<rceil> + VISIBLE_BUFFER);
               cols = scanColumns nCols cw (fst scroll) containerWidth 0 0 False 0;
               ec = (if snd cols = 0 then nCols else snd cols)
           in \<lparr>startRow = sr, endRow = er, startCol = fst cols, endCol = ec\<rparr>))"

subsection \<open>Cell references (lines 908-928)\<close>

function getColumnName_loop :: "int \<Rightarrow> string \<Rightarrow> string" where
  "getColumnName_loop num name =
     (if num \<ge> 0
      then getColumnName_loop (num div 26 - 1) (char_of (65 + num mod 26) # name)
      else name)"
  by pat_completeness auto
termination
  by (relation "measure (\<lambda>(num, name). nat (num + 1))") auto

declare getColumnName_loop.simps [simp del]

definition getColumnName :: "int \<Rightarrow> string" where
  "getColumnName index = getColumnName_loop index []"

text \<open>
  The template literal of line 919 formats the number \<^verbatim>\<open>row + 1\<close>; for an integer
  that is its decimal numeral, with a minus sign when negative (the exponent notation
  of numbers from \<open>10^21\<close> on is outside the model).
\<close>

fun digits :: "nat \<Rightarrow> string" where
  "digits n =
     (if n < 10 then [char_of (48 + n)] else digits (n div 10) @ [char_of (48 + n mod 10)])"

declare digits.simps [simp del]

definition numberToString :: "int \<Rightarrow> string" where
  "numberToString i = (if i < 0 then CHR ''-'' # digits (nat (- i)) else digits (nat i))"

definition getCellRef :: "int \<Rightarrow> int \<Rightarrow> string" where
  "getCellRef r c = getColumnName c @ numberToString (r + 1)"

definition getColumnLeft :: "(int \<rightharpoonup> real) \<Rightarrow> int \<Rightarrow> real" where
  "getColumnLeft cw c = sum_list (map (\<lambda>i. widthOf cw (int i)) [0..<nat c])"

text \<open>
  The spreadsheet numbering the labels are compared with: a label is a non-empty word
  over the letters A to Z, read as a numeral in bijective base 26 with the digits
  A = 1, ..., Z = 26.
\<close>

definition is_letter :: "char \<Rightarrow> bool" where
  "is_letter ch = (65 \<le> (of_char ch :: int) \<and> (of_char ch :: int) \<le> 90)"

definition is_label :: "string \<Rightarrow> bool" where
  "is_label s = (s \<noteq> [] \<and> list_all is_letter s)"

definition label_value :: "string \<Rightarrow> int" where
  "label_value s = foldl (\<lambda>acc ch. acc * 26 + (of_char ch - 64)) 0 s"

text \<open>The number a word of decimal digits denotes.\<close>

definition is_digit :: "char \<Rightarrow> bool" where
  "is_digit ch = (48 \<le> (of_char ch :: int) \<and> (of_char ch :: int) \<le> 57)"

definition decimal_value :: "string \<Rightarrow> int" where
  "decimal_value s = foldl (\<lambda>acc ch. acc * 10 + (of_char ch - 48)) 0 s"

subsection \<open>Event handlers (lines 931-1023)\<close>

definition handleScroll :: "real \<Rightarrow> real \<Rightarrow> GridState \<Rightarrow> GridState \<times> callback list" where
  "handleScroll scrollLeft scrollTop st = (st\<lparr>scrollPosition := (scrollLeft, scrollTop)\<rparr>, [])"

text \<open>
  The body of \<^verbatim>\<open>saveEdit\<close> (lines 984-990), run by a closure that sees the draft
  \<open>seen\<close>. \<^verbatim>\<open>editingCell\<close> is in the dependency list of every closure that reaches
  this body, so it is always the current one.
\<close>

definition saveEditWith ::
  "ExcelGridProps \<Rightarrow> string \<Rightarrow> GridState \<Rightarrow> GridState \<times> callback list" where
  "saveEditWith props seen st =
     (st\<lparr>editingCell := None, editValue := [],
         capturedEditValue := (if editingCell st = None then capturedEditValue st else [])\<rparr>,
      (case editingCell st of
         None \<Rightarrow> []
       | Some (r, c) \<Rightarrow> if onCellChange_given props then [CellChange r c seen] else []))"

text \<open>
  \<^verbatim>\<open>saveEdit\<close> as the input's \<^verbatim>\<open>onBlur\<close> and \<^verbatim>\<open>handleEditKeyDown\<close> hold it: its
  dependency list names \<^verbatim>\<open>editValue\<close> (line 990) and \<^verbatim>\<open>handleEditKeyDown\<close> depends on
  \<^verbatim>\<open>saveEdit\<close> (line 999), so both see the current draft.
\<close>

definition saveEdit :: "ExcelGridProps \<Rightarrow> GridState \<Rightarrow> GridState \<times> callback list" where
  "saveEdit props st = saveEditWith props (editValue st) st"

text \<open>
  \<^verbatim>\<open>handleMouseDown\<close> (lines 940-954). Its \<^verbatim>\<open>saveEdit\<close> is the captured one (see
  \<open>capturedEditValue\<close>); the state updates of both functions are batched into one render.
\<close>

definition handleMouseDown ::
  "ExcelGridProps \<Rightarrow> int \<Rightarrow> int \<Rightarrow> GridState \<Rightarrow> GridState \<times> callback list" where
  "handleMouseDown props r c st =
     (let saved = (if editingCell st = None then (st, [])
                   else saveEditWith props (capturedEditValue st) st);
          newSelection = \<lparr>sel_start = (r, c), sel_end = (r, c)\<rparr>
      in ((fst saved)\<lparr>selection := Some newSelection, isSelecting := True\<rparr>,
          snd saved @ (if onSelectionChange_given props then [SelectionChange newSelection] else [])))"

definition handleMouseMove ::
  "ExcelGridProps \<Rightarrow> int \<Rightarrow> int \<Rightarrow> GridState \<Rightarrow> GridState \<times> callback list" where
  "handleMouseMove props r c st =
     (case selection st of
        None \<Rightarrow> (st, [])
      | Some sel \<Rightarrow>
          if isSelecting st
          then (let newSelection = sel\<lparr>sel_end := (r, c)\<rparr>
                in (st\<lparr>selection := Some newSelection\<rparr>,
                    if onSelectionChange_given props then [SelectionChange newSelection] else []))
          else (st, []))"

definition handleMouseUp :: "GridState \<Rightarrow> GridState \<times> callback list" where
  "handleMouseUp st = (st\<lparr>isSelecting := False\<rparr>, [])"

text \<open>
  \<^verbatim>\<open>handleDoubleClick\<close> (lines 975-978) stores a fresh \<^verbatim>\<open>{row, col}\<close> object, so the
  next render re-creates \<^verbatim>\<open>handleMouseDown\<close> around the draft set here.
\<close>

definition handleDoubleClick ::
  "string list list \<Rightarrow> int \<Rightarrow> int \<Rightarrow> GridState \<Rightarrow> GridState \<times> callback list" where
  "handleDoubleClick grid r c st =
     (st\<lparr>editingCell := Some (r, c), editValue := cellValue grid r c,
         capturedEditValue := cellValue grid r c\<rparr>, [])"

definition handleEditChange :: "string \<Rightarrow> GridState \<Rightarrow> GridState \<times> callback list" where
  "handleEditChange v st = (st\<lparr>editValue := v\<rparr>, [])"

definition handleEditKeyDown ::
  "ExcelGridProps \<Rightarrow> string \<Rightarrow> GridState \<Rightarrow> GridState \<times> callback list" where
  "handleEditKeyDown props key st =
     (if key = ''Enter'' then saveEdit props st
      else if key = ''Escape''
      then (st\<lparr>editingCell := None, editValue := [],
               capturedEditValue := (if editingCell st = None then capturedEditValue st else [])\<rparr>,
            [])
      else (st, []))"

definition handleColumnResizeStart :: "int \<Rightarrow> real \<Rightarrow> GridState \<Rightarrow> GridState \<times> callback list" where
  "handleColumnResizeStart c clientX st =
     (st\<lparr>resizingColumn := Some c, resizeStartX := clientX,
         resizeStartWidth := widthOf (columnWidths st) c\<rparr>, [])"

definition handleColumnResize :: "real \<Rightarrow> GridState \<Rightarrow> GridState \<times> callback list" where
  "handleColumnResize clientX st =
     (case resizingColumn st of
        None \<Rightarrow> (st, [])
      | Some c \<Rightarrow>
          (let diff = clientX - resizeStartX st;
               newWidth = max MIN_CELL_WIDTH (resizeStartWidth st + diff)
           in (st\<lparr>columnWidths := (columnWidths st)(c \<mapsto> newWidth)\<rparr>, [])))"

definition handleColumnResizeEnd :: "GridState \<Rightarrow> GridState \<times> callback list" where
  "handleColumnResizeEnd st = (st\<lparr>resizingColumn := None\<rparr>, [])"

text \<open>The events the host delivers to the component, and the handler each one runs.\<close>

datatype event =
    Scroll real real
  | MouseDown int int
  | MouseMove int int
  | MouseUp
  | DoubleClick int int
  | EditChange string
  | EditKeyDown string
  | EditBlur
  | ColumnResizeStart int real
  | ColumnResize real
  | ColumnResizeEnd

fun step ::
  "ExcelGridProps \<Rightarrow> string list list \<Rightarrow> event \<Rightarrow> GridState \<Rightarrow> GridState \<times> callback list"
where
  "step props grid (Scroll l t) st = handleScroll l t st"
| "step props grid (MouseDown r c) st = handleMouseDown props r c st"
| "step props grid (MouseMove r c) st = handleMouseMove props r c st"
| "step props grid MouseUp st = handleMouseUp st"
| "step props grid (DoubleClick r c) st = handleDoubleClick grid r c st"
| "step props grid (EditChange v) st = handleEditChange v st"
| "step props grid (EditKeyDown key) st = handleEditKeyDown props key st"
| "step props grid EditBlur st = saveEdit props st"
| "step props grid (ColumnResizeStart c clientX) st = handleColumnResizeStart c clientX st"
| "step props grid (ColumnResize clientX) st = handleColumnResize clientX st"
| "step props grid ColumnResizeEnd st = handleColumnResizeEnd st"

text \<open>The states the component can be in: the initial one and every successor.\<close>

inductive reachable :: "GridState \<Rightarrow> bool" where
  reachable_init: "reachable initialState"
| reachable_step: "reachable st \<Longrightarrow> reachable (fst (step props grid ev st))"

subsection \<open>Selection membership and rendering (lines 1045-1160)\<close>

definition isCellSelected :: "GridState \<Rightarrow> int \<Rightarrow> int \<Rightarrow> bool" where
  "isCellSelected st r c =
     (case selection st of
        None \<Rightarrow> False
      | Some sel \<Rightarrow>
          (let minRow = min (fst (sel_start sel)) (fst (sel_end sel));
               maxRow = max (fst (sel_start sel)) (fst (sel_end sel));
               minCol = min (snd (sel_start sel)) (snd (sel_end sel));
               maxCol = max (snd (sel_start sel)) (snd (sel_end sel))
           in r \<ge> minRow \<and> r \<le> maxRow \<and> c \<ge> minCol \<and> c \<le> maxCol))"

record CellDescriptor =
  cell_row :: int
  cell_col :: int
  cell_ref :: string
  cell_left :: real
  cell_top :: real
  cell_width :: real
  cell_height :: real
  cell_value :: string
  cell_selected :: bool
  cell_editing :: bool

definition renderCell :: "string list list \<Rightarrow> GridState \<Rightarrow> int \<Rightarrow> int \<Rightarrow> CellDescriptor" where
  "renderCell grid st r c =
     \<lparr>cell_row = r, cell_col = c, cell_ref = getCellRef r c,
      cell_left = getColumnLeft (columnWidths st) c, cell_top = of_int r * CELL_HEIGHT,
      cell_width = widthOf (columnWidths st) c, cell_height = CELL_HEIGHT,
      cell_value = cellValue grid r c,
      cell_selected = isCellSelected st r c,
      cell_editing = (editingCell st = Some (r, c))\<rparr>"

text \<open>
  \<^verbatim>\<open>Array.from({ length: n }, (_, i) => f(i))\<close>: a negative length gives the empty array.
\<close>

definition arrayFrom :: "int \<Rightarrow> (int \<Rightarrow> 'a) \<Rightarrow> 'a list" where
  "arrayFrom n f = map (\<lambda>i. f (int i)) [0..<nat n]"

text \<open>The cell loop of lines 1151-1159, over a visible range \<open>vr\<close>.\<close>

definition renderCells :: "string list list \<Rightarrow> GridState \<Rightarrow> VisibleRange \<Rightarrow> CellDescriptor list" where
  "renderCells grid st vr =
     concat (map (\<lambda>r. map (\<lambda>c. renderCell grid st r c)
                        (arrayFrom (endCol vr - startCol vr) (\<lambda>j. startCol vr + j)))
                 (arrayFrom (endRow vr - startRow vr) (\<lambda>i. startRow vr + i)))"

definition render ::
  "(real \<times> real) option \<Rightarrow> string list list \<Rightarrow> GridState \<Rightarrow> CellDescriptor list" where
  "render container grid st =
     renderCells grid st
       (visibleRange container (scrollPosition st) (totalRows grid) (totalCols grid)
          (columnWidths st))"

subsection \<open>The parent: sheet data and the mutation callback (lines 452-503, 659-660)\<close>

record Sheet =
  sheet_name :: string
  sheet_data :: "string list list option"

record Session =
  sheets :: "Sheet list"
  activeSheet :: string

datatype error = TypeError

text \<open>\<^verbatim>\<open>currentSheet?.data || []\<close>: the grid handed to the component as \<^verbatim>\<open>data\<close>.\<close>

definition sheetData :: "Session \<Rightarrow> string list list" where
  "sheetData s =
     (case find (\<lambda>sh. sheet_name sh = activeSheet s) (sheets s) of
        None \<Rightarrow> []
      | Some sh \<Rightarrow> (case sheet_data sh of None \<Rightarrow> [] | Some d \<Rightarrow> d))"

text \<open>
  The assignment \<^verbatim>\<open>data[row][col] = value\<close> of line 462. Reading \<^verbatim>\<open>data[row]\<close> outside
  the array gives \<^verbatim>\<open>undefined\<close>, and the assignment to its property throws a TypeError.
  Past the end of a row the array grows; the holes are written here as empty strings,
  which is how every reader of the grid sees them (\<open>cellValue\<close>). A negative column
  names a property of the row object and leaves its elements as they are.
\<close>

definition setCell :: "string list list \<Rightarrow> int \<Rightarrow> int \<Rightarrow> string \<Rightarrow> error + string list list" where
  "setCell d r c v =
     (if r < 0 \<or> int (length d) \<le> r then Inl TypeError
      else if c < 0 then Inr d
      else (let old = d ! nat r;
                new = (if c < int (length old) then old[nat c := v]
                       else old @ replicate (nat c - length old) [] @ [v])
            in Inr (d[nat r := new])))"

fun updateFirst :: "string \<Rightarrow> (Sheet \<Rightarrow> error + Sheet) \<Rightarrow> Sheet list \<Rightarrow> error + Sheet list" where
  "updateFirst n f [] = Inr []"
| "updateFirst n f (sh # rest) =
     (if sheet_name sh = n
      then (case f sh of Inl e \<Rightarrow> Inl e | Inr sh' \<Rightarrow> Inr (sh' # rest))
      else (case updateFirst n f rest of Inl e \<Rightarrow> Inl e | Inr rest' \<Rightarrow> Inr (sh # rest')))"

text \<open>
  The state update of \<^verbatim>\<open>handleCellChange\<close> (lines 457-465): the first sheet named
  \<^verbatim>\<open>activeSheet\<close>, when it has data, gets the cell written. The debounced network
  request that follows does not touch the session.
\<close>

definition handleCellChange :: "int \<Rightarrow> int \<Rightarrow> string \<Rightarrow> Session \<Rightarrow> error + Session" where
  "handleCellChange r c v s =
     (case updateFirst (activeSheet s)
             (\<lambda>sh. case sheet_data sh of
                      None \<Rightarrow> Inr sh
                    | Some d \<Rightarrow> (case setCell d r c v of
                                   Inl e \<Rightarrow> Inl e
                                 | Inr d' \<Rightarrow> Inr (sh\<lparr>sheet_data := Some d'\<rparr>)))
             (sheets s) of
        Inl e \<Rightarrow> Inl e
      | Inr shs \<Rightarrow> Inr (s\<lparr>sheets := shs\<rparr>))"

text \<open>\<^verbatim>\<open>handleSelectionChange\<close> (lines 615-617) only logs.\<close>

fun deliver :: "callback \<Rightarrow> Session \<Rightarrow> error + Session" where
  "deliver (CellChange r c v) s = handleCellChange r c v s"
| "deliver (SelectionChange sel) s = Inr s"

fun deliverAll :: "callback list \<Rightarrow> Session \<Rightarrow> error + Session" where
  "deliverAll [] s = Inr s"
| "deliverAll (cb # cbs) s = (case deliver cb s of Inl e \<Rightarrow> Inl e | Inr s' \<Rightarrow> deliverAll cbs s')"

text \<open>\<^verbatim>\<open>App\<close> mounts the grid with both callbacks (lines 769-773).\<close>

definition appProps :: ExcelGridProps where
  "appProps = \<lparr>onCellChange_given = True, onSelectionChange_given = True\<rparr>"

record System =
  session :: Session
  grid_state :: GridState

text \<open>
  One event on the mounted application: the handler of the component runs on the
  current sheet data, then the parent runs each callback it was called with. The result
  holds the calls made, in order.
\<close>

definition dispatch :: "event \<Rightarrow> System \<Rightarrow> error + (System \<times> callback list)" where
  "dispatch ev sys =
     (let res = step appProps (sheetData (session sys)) ev (grid_state sys)
      in case deliverAll (snd res) (session sys) of
           Inl e \<Rightarrow> Inl e
         | Inr s' \<Rightarrow> Inr (\<lparr>session = s', grid_state = fst res\<rparr>, snd res))"

fun dispatchAll :: "event list \<Rightarrow> System \<Rightarrow> error + System" where
  "dispatchAll [] sys = Inr sys"
| "dispatchAll (ev # evs) sys =
     (case dispatch ev sys of Inl e \<Rightarrow> Inl e | Inr res \<Rightarrow> dispatchAll evs (fst res))"

text \<open>A sequence of events on the component, the \<^verbatim>\<open>data\<close> prop staying the same.\<close>

definition runEvents ::
  "ExcelGridProps \<Rightarrow> string list list \<Rightarrow> event list \<Rightarrow> GridState \<Rightarrow> GridState" where
  "runEvents props grid evs st = fold (\<lambda>ev s. fst (step props grid ev s)) evs st"

subsection \<open>Properties named by the specification\<close>

text \<open>The invariant of the column widths: every stored width is at least the floor.\<close>

definition widths_ok :: "GridState \<Rightarrow> bool" where
  "widths_ok st = (\<forall>c w. columnWidths st c = Some w \<longrightarrow> MIN_CELL_WIDTH \<le> w)"

text \<open>
  The example of the specification: a sheet holding "10" at \<open>(1, 1)\<close>, mounted with
  the component in its initial state.
\<close>

definition exampleSystem :: System where
  "exampleSystem =
     \<lparr>session = \<lparr>sheets = [\<lparr>sheet_name = ''Sheet1'',
                               sheet_data = Some [[''a'', ''b''], [''c'', ''10'']]\<rparr>],
                  activeSheet = ''Sheet1''\<rparr>,
      grid_state = initialState\<rparr>"

text \<open>
  The same system after the cell \<open>(1, 1)\<close> was double-clicked and "20" typed into the
  editor: the press and release of each click, the double click, the change of the input.
\<close>

definition openEditEvents :: "event list" where
  "openEditEvents =
     [MouseDown 1 1, MouseUp, MouseDown 1 1, MouseUp, DoubleClick 1 1, EditChange ''20'']"

definition exampleEditing :: System where
  "exampleEditing =
     exampleSystem\<lparr>grid_state :=
       initialState\<lparr>selection := Some \<lparr>sel_start = (1, 1), sel_end = (1, 1)\<rparr>,
                    editingCell := Some (1, 1), editValue := ''20'',
                    capturedEditValue := ''10''\<rparr>\<rparr>"

text \<open>
  A sheet that came without its \<^verbatim>\<open>data\<close> field: the grid handed to the component is
  empty. The second system is the first after a double click on the cell \<open>(0, 0)\<close> and
  "x" typed into the editor.
\<close>

definition noDataSystem :: System where
  "noDataSystem =
     \<lparr>session = \<lparr>sheets = [\<lparr>sheet_name = ''Sheet1'', sheet_data = None\<rparr>],
                  activeSheet = ''Sheet1''\<rparr>,
      grid_state = initialState\<rparr>"

definition noDataEvents :: "event list" where
  "noDataEvents =
     [MouseDown 0 0, MouseUp, MouseDown 0 0, MouseUp, DoubleClick 0 0, EditChange ''x'']"

definition noDataEditing :: System where
  "noDataEditing =
     noDataSystem\<lparr>grid_state :=
       initialState\<lparr>selection := Some \<lparr>sel_start = (0, 0), sel_end = (0, 0)\<rparr>,
                    editingCell := Some (0, 0), editValue := ''x''\<rparr>\<rparr>"

text \<open>
  The order in which a browser delivers pointer events: a double click is dispatched
  right after the release of its second click, and that release bubbles to the
  \<^verbatim>\<open>onMouseUp\<close> of the grid container (line 1100). \<open>hostReachable prev st\<close>: the state
  \<open>st\<close> is reached by such a sequence of events, the last of which is \<open>prev\<close>.
\<close>

fun deliverable :: "event option \<Rightarrow> event \<Rightarrow> bool" where
  "deliverable prev (DoubleClick r c) = (prev = Some MouseUp)"
| "deliverable prev ev = True"

inductive hostReachable :: "event option \<Rightarrow> GridState \<Rightarrow> bool" where
  host_init: "hostReachable None initialState"
| host_step: "hostReachable prev st \<Longrightarrow> deliverable prev ev \<Longrightarrow>
     hostReachable (Some ev) (fst (step props grid ev st))"

section \<open>Column labels and cell references\<close>

lemma getColumnName_loop_append:
  "getColumnName_loop num acc = getColumnName_loop num [] @ acc"
proof (induction "nat (num + 1)" arbitrary: num acc rule: less_induct)
  case less
  show ?case
  proof (cases "num \<ge> 0")
    case True
    let ?c = "char_of (65 + num mod 26) :: char"
    let ?m = "num div 26 - 1"
    have smaller: "nat (?m + 1) < nat (num + 1)"
      using True by simp
    have "getColumnName_loop num acc = getColumnName_loop ?m (?c # acc)"
      using True by (subst getColumnName_loop.simps) simp
    also have "\<dots> = getColumnName_loop ?m [] @ (?c # acc)"
      by (rule less.hyps [OF smaller])
    also have "\<dots> = (getColumnName_loop ?m [] @ [?c]) @ acc"
      by simp
    also have "getColumnName_loop ?m [] @ [?c] = getColumnName_loop ?m [?c]"
      by (rule less.hyps [OF smaller, symmetric])
    also have "getColumnName_loop ?m [?c] = getColumnName_loop num []"
      using True by (subst (2) getColumnName_loop.simps) simp
    finally show ?thesis .
  next
    case False
    then show ?thesis by (simp add: getColumnName_loop.simps)
  qed
qed

text \<open>The loop read from the last letter: the label of \<open>n\<close> is the label of
  \<open>n div 26 - 1\<close> followed by the letter of \<open>n mod 26\<close>.\<close>

lemma getColumnName_rec:
  "getColumnName n =
     (if n \<ge> 0 then getColumnName (n div 26 - 1) @ [char_of (65 + n mod 26)] else [])"
proof (cases "n \<ge> 0")
  case True
  have "getColumnName n = getColumnName_loop (n div 26 - 1) [char_of (65 + n mod 26)]"
    unfolding getColumnName_def using True by (subst getColumnName_loop.simps) simp
  also have "\<dots> = getColumnName (n div 26 - 1) @ [char_of (65 + n mod 26)]"
    unfolding getColumnName_def by (rule getColumnName_loop_append)
  finally show ?thesis using True by simp
next
  case False
  then show ?thesis by (simp add: getColumnName_def getColumnName_loop.simps)
qed

lemma label_value_snoc:
  "label_value (s @ [ch]) = label_value s * 26 + (of_char ch - 64)"
  by (simp add: label_value_def)

lemma label_value_Nil: "label_value [] = 0"
  by (simp add: label_value_def)

lemma letter_code:
  assumes "0 \<le> k" "k < 26"
  shows "(of_char (char_of (65 + k :: int)) :: int) = 65 + k"
proof -
  have "(65 + k) mod 256 = 65 + k" using assms by simp
  then show ?thesis by (simp add: of_char_of)
qed

lemma getColumnName_letters: "list_all is_letter (getColumnName n)"
proof (induction "nat (n + 1)" arbitrary: n rule: less_induct)
  case less
  show ?case
  proof (cases "n \<ge> 0")
    case True
    have smaller: "nat ((n div 26 - 1) + 1) < nat (n + 1)" using True by simp
    have letter: "is_letter (char_of (65 + n mod 26))"
      using letter_code [of "n mod 26"] by (simp add: is_letter_def)
    show ?thesis
      using less.hyps [OF smaller] letter True by (subst getColumnName_rec) simp
  next
    case False
    then show ?thesis by (subst getColumnName_rec) simp
  qed
qed

lemma getColumnName_value: "- 1 \<le> n \<Longrightarrow> label_value (getColumnName n) = n + 1"
proof (induction "nat (n + 1)" arbitrary: n rule: less_induct)
  case less
  show ?case
  proof (cases "n \<ge> 0")
    case True
    let ?m = "n div 26 - 1"
    have smaller: "nat (?m + 1) < nat (n + 1)" using True by simp
    have m: "- 1 \<le> ?m" using True by simp
    have ih: "label_value (getColumnName ?m) = ?m + 1"
      by (rule less.hyps [OF smaller m])
    have "label_value (getColumnName n)
        = label_value (getColumnName ?m) * 26 + (of_char (char_of (65 + n mod 26) :: char) - 64)"
      using True by (subst getColumnName_rec) (simp add: label_value_snoc)
    also have "\<dots> = (n div 26) * 26 + (n mod 26 + 1)"
      using ih letter_code [of "n mod 26"] by simp
    also have "\<dots> = n + 1" by simp
    finally show ?thesis .
  next
    case False
    with less.prems have "n = - 1" by simp
    then show ?thesis by (subst getColumnName_rec) (simp add: label_value_Nil)
  qed
qed

lemma label_value_nonneg: "list_all is_letter s \<Longrightarrow> 0 \<le> label_value s"
proof (induction s rule: rev_induct)
  case Nil
  then show ?case by (simp add: label_value_Nil)
next
  case (snoc ch s)
  then show ?case by (simp add: label_value_snoc is_letter_def)
qed

text \<open>Every word over A..Z is the label of the index one below its value.\<close>

lemma getColumnName_inverse:
  "list_all is_letter s \<Longrightarrow> getColumnName (label_value s - 1) = s"
proof (induction s rule: rev_induct)
  case Nil
  then show ?case by (subst getColumnName_rec) (simp add: label_value_Nil)
next
  case (snoc ch s)
  let ?d = "of_char ch - 64 :: int"
  let ?v = "label_value s"
  from snoc.prems have letters: "list_all is_letter s" and ch: "is_letter ch" by simp_all
  have d: "1 \<le> ?d" "?d \<le> 26" using ch by (simp_all add: is_letter_def)
  have v: "0 \<le> ?v" using letters by (rule label_value_nonneg)
  let ?n = "?v * 26 + (?d - 1)"
  have n: "label_value (s @ [ch]) - 1 = ?n" by (simp add: label_value_snoc)
  have n0: "0 \<le> ?n" using d v by simp
  have dv: "?n div 26 = ?v" using d by simp
  have md: "?n mod 26 = ?d - 1" using d by simp
  have "getColumnName ?n = getColumnName (?n div 26 - 1) @ [char_of (65 + ?n mod 26)]"
    using n0 by (subst getColumnName_rec) simp
  also have "\<dots> = getColumnName (?v - 1) @ [char_of (of_char ch :: int)]"
    unfolding dv md by simp
  also have "\<dots> = s @ [ch]"
    using snoc.IH [OF letters] by (simp add: char_of_char)
  finally show ?case unfolding n .
qed

text \<open>The decimal numeral of a natural number: digits only, denoting that number.\<close>

lemma digit_code:
  assumes "k < 10"
  shows "(of_char (char_of (48 + k :: nat)) :: int) = 48 + int k"
proof -
  have "(of_char (char_of (48 + k)) :: nat) = (48 + k) mod 256"
    by (simp add: of_char_of)
  also have "\<dots> = 48 + k" using assms by simp
  finally have "int (of_char (char_of (48 + k))) = int (48 + k)" by (rule arg_cong)
  then show ?thesis by (simp only: of_nat_of_char)
qed

lemma decimal_value_snoc:
  "decimal_value (s @ [ch]) = decimal_value s * 10 + (of_char ch - 48)"
  by (simp add: decimal_value_def)

lemma digits_decimal:
  "list_all is_digit (digits n) \<and> digits n \<noteq> [] \<and> decimal_value (digits n) = int n"
proof (induction n rule: digits.induct)
  case (1 n)
  show ?case
  proof (cases "n < 10")
    case True
    then have "digits n = [char_of (48 + n)]" by (subst digits.simps) simp
    with digit_code [OF True] True show ?thesis
      by (simp add: is_digit_def decimal_value_def)
  next
    case False
    then have eq: "digits n = digits (n div 10) @ [char_of (48 + n mod 10)]"
      by (subst digits.simps) simp
    have m: "n mod 10 < 10" by simp
    have v: "int (n div 10) * 10 + int (n mod 10) = int n"
      by (simp add: zdiv_int zmod_int)
    from "1.IH" [OF False] digit_code [OF m] m v show ?thesis
      unfolding eq by (simp add: decimal_value_snoc is_digit_def)
  qed
qed

lemma numberToString_decimal:
  "0 \<le> i \<Longrightarrow> list_all is_digit (numberToString i) \<and> decimal_value (numberToString i) = i"
  using digits_decimal [of "nat i"] by (simp add: numberToString_def)

text \<open>
  Claim C1. For every column index \<open>n \<ge> 0\<close>, \<open>getColumnName n\<close> is the label of
  \<open>n\<close> in the bijective base-26 numbering of spreadsheets: it is a non-empty word over
  A..Z whose value is \<open>n + 1\<close>, and it is the only such word. Index 0 gives A, 25 gives
  Z, 26 gives AA, 701 gives ZZ and 702 gives AAA. The reference of the cell
  \<open>(row, col)\<close> is the label of \<open>col\<close> followed by the decimal numeral of \<open>row + 1\<close>.
\<close>

theorem getColumnName_bijective_base26:
  "(0 \<le> n \<longrightarrow> is_label (getColumnName n) \<and> label_value (getColumnName n) = n + 1
       \<and> (\<forall>s. is_label s \<and> label_value s = n + 1 \<longrightarrow> s = getColumnName n))
   \<and> getColumnName 0 = ''A'' \<and> getColumnName 25 = ''Z'' \<and> getColumnName 26 = ''AA''
   \<and> getColumnName 701 = ''ZZ'' \<and> getColumnName 702 = ''AAA''
   \<and> getCellRef r c = getColumnName c @ numberToString (r + 1)
   \<and> (0 \<le> r \<longrightarrow> list_all is_digit (numberToString (r + 1))
         \<and> decimal_value (numberToString (r + 1)) = r + 1)"
proof -
  have ex: "getColumnName 0 = ''A''" "getColumnName 25 = ''Z''" "getColumnName 26 = ''AA''"
    "getColumnName 701 = ''ZZ''" "getColumnName 702 = ''AAA''"
    by code_simp+
  have gen: "is_label (getColumnName n) \<and> label_value (getColumnName n) = n + 1
       \<and> (\<forall>s. is_label s \<and> label_value s = n + 1 \<longrightarrow> s = getColumnName n)" if n: "0 \<le> n"
  proof (intro conjI allI impI)
    have "getColumnName n \<noteq> []" using n by (subst getColumnName_rec) simp
    then show "is_label (getColumnName n)"
      by (simp add: is_label_def getColumnName_letters)
    show "label_value (getColumnName n) = n + 1"
      using n by (simp add: getColumnName_value)
  next
    fix s assume s: "is_label s \<and> label_value s = n + 1"
    then have "list_all is_letter s" by (simp add: is_label_def)
    then have "getColumnName (label_value s - 1) = s"
      by (rule getColumnName_inverse)
    moreover have "label_value s - 1 = n" using s by simp
    ultimately show "s = getColumnName n" by simp
  qed
  have dec: "list_all is_digit (numberToString (r + 1))
      \<and> decimal_value (numberToString (r + 1)) = r + 1" if "0 \<le> r"
    using that by (intro numberToString_decimal) simp
  have ref: "getCellRef r c = getColumnName c @ numberToString (r + 1)"
    by (simp add: getCellRef_def)
  from ex gen dec ref show ?thesis by blast
qed

theorem getColumnName_bijective_base26_witness:
  "(0::int) \<le> 27 \<and> is_label (getColumnName 27) \<and> label_value (getColumnName 27) = 28
   \<and> is_label ''AB'' \<and> label_value ''AB'' = 28 \<and> getColumnName 27 = ''AB''
   \<and> (0::int) \<le> 11 \<and> getCellRef 11 2 = ''C12'' \<and> decimal_value (numberToString (11 + 1)) = 12"
proof -
  have lab: "is_label ''AB''" by (simp add: is_label_def is_letter_def)
  have val: "label_value ''AB'' = 27 + 1" by (simp add: label_value_def)
  have c12: "getColumnName 2 @ numberToString (11 + 1) = ''C12''" by code_simp
  from getColumnName_bijective_base26 [of 27 11 2] lab val c12 show ?thesis
    by auto
qed

section \<open>The visible range and the cells rendered\<close>


lemma arrayFrom_set: "set (arrayFrom n (\<lambda>i. a + i)) = {a..<a + n}"
proof -
  have "set (arrayFrom n (\<lambda>i. a + i)) = (\<lambda>i. a + int i) ` {0..<nat n}"
    by (simp add: arrayFrom_def)
  also have "\<dots> = {a..<a + n}"
  proof (intro set_eqI iffI)
    fix k assume "k \<in> (\<lambda>i. a + int i) ` {0..<nat n}"
    then show "k \<in> {a..<a + n}" by auto
  next
    fix k assume k: "k \<in> {a..<a + n}"
    then have "k = a + int (nat (k - a))" "nat (k - a) \<in> {0..<nat n}" by auto
    then show "k \<in> (\<lambda>i. a + int i) ` {0..<nat n}" by (rule image_eqI)
  qed
  finally show ?thesis .
qed

lemma renderCells_positions:
  "(\<lambda>d. (cell_row d, cell_col d)) ` set (renderCells grid st vr)
     = {startRow vr..<endRow vr} \<times> {startCol vr..<endCol vr}"
proof -
  have rows: "set (arrayFrom (endRow vr - startRow vr) (\<lambda>i. startRow vr + i))
      = {startRow vr..<endRow vr}"
    by (simp add: arrayFrom_set)
  have cols: "set (arrayFrom (endCol vr - startCol vr) (\<lambda>j. startCol vr + j))
      = {startCol vr..<endCol vr}"
    by (simp add: arrayFrom_set)
  have "set (renderCells grid st vr)
      = (\<Union>r\<in>{startRow vr..<endRow vr}. renderCell grid st r ` {startCol vr..<endCol vr})"
    unfolding renderCells_def by (simp add: rows cols)
  then have "(\<lambda>d. (cell_row d, cell_col d)) ` set (renderCells grid st vr)
      = (\<Union>r\<in>{startRow vr..<endRow vr}.
           (\<lambda>c. (cell_row (renderCell grid st r c), cell_col (renderCell grid st r c)))
             ` {startCol vr..<endCol vr})"
    by (simp only: image_UN image_image)
  also have "\<dots> = (\<Union>r\<in>{startRow vr..<endRow vr}. Pair r ` {startCol vr..<endCol vr})"
    by (simp add: renderCell_def)
  also have "\<dots> = {startRow vr..<endRow vr} \<times> {startCol vr..<endCol vr}"
    by blast
  finally show ?thesis .
qed

lemma scanColumns_bounds:
  "0 \<le> sc \<Longrightarrow> 0 \<le> c \<Longrightarrow>
   0 \<le> fst (scanColumns nCols cw sx cwid c sc found acc)
   \<and> 0 \<le> snd (scanColumns nCols cw sx cwid c sc found acc)
   \<and> (snd (scanColumns nCols cw sx cwid c sc found acc) = 0
       \<or> snd (scanColumns nCols cw sx cwid c sc found acc) < nCols)"
proof (induction nCols cw sx cwid c sc found acc rule: scanColumns.induct)
  case (1 nCols cw sx cwid c sc found acc)
  show ?case
  proof (cases "c < nCols")
    case False
    then show ?thesis using "1.prems" by (subst (1 2 3 4) scanColumns.simps) simp
  next
    case inside: True
    let ?w = "widthOf cw c"
    let ?hit = "\<not> found \<and> acc + ?w > sx"
    let ?sc = "if ?hit then max 0 (c - VISIBLE_BUFFER) else sc"
    let ?found = "if ?hit then True else found"
    show ?thesis
    proof (cases "acc > sx + cwid + of_int VISIBLE_BUFFER * DEFAULT_CELL_WIDTH")
      case True
      then have "scanColumns nCols cw sx cwid c sc found acc = (?sc, c)"
        using inside by (subst scanColumns.simps) (simp add: Let_def)
      then show ?thesis using "1.prems" inside by simp
    next
      case False
      then have eq: "scanColumns nCols cw sx cwid c sc found acc
          = scanColumns nCols cw sx cwid (c + 1) ?sc ?found (acc + ?w)"
        using inside by (subst scanColumns.simps) (simp add: Let_def)
      have "0 \<le> ?sc" "0 \<le> c + 1" using "1.prems" by simp_all
      from "1.IH" [OF inside refl refl refl refl False this] show ?thesis
        unfolding eq .
    qed
  qed
qed

lemma totalCols_nonneg: "0 \<le> totalCols grid"
proof -
  have "a \<le> fold max xs a" for a :: int and xs
    by (induction xs arbitrary: a) (auto intro: order_trans [OF max.cobounded2])
  then show ?thesis unfolding totalCols_def .
qed

lemma visibleRange_measured_bounds:
  assumes "0 \<le> nCols"
  shows "0 \<le> startRow (visibleRange (Some cont) scroll nRows nCols cw)
       \<and> endRow (visibleRange (Some cont) scroll nRows nCols cw) \<le> nRows
       \<and> 0 \<le> startCol (visibleRange (Some cont) scroll nRows nCols cw)
       \<and> endCol (visibleRange (Some cont) scroll nRows nCols cw) \<le> nCols"
proof -
  obtain w h where cont: "cont = (w, h)" by (cases cont)
  let ?cols = "scanColumns nCols cw (fst scroll) (w - ROW_HEADER_WIDTH) 0 0 False 0"
  have b: "0 \<le> fst ?cols \<and> 0 \<le> snd ?cols \<and> (snd ?cols = 0 \<or> snd ?cols < nCols)"
    by (rule scanColumns_bounds) simp_all
  show ?thesis
    using b assms by (auto simp add: visibleRange_def cont Let_def)
qed

lemma render_measured_within_grid:
  assumes "d \<in> set (render (Some cont) grid st)"
  shows "0 \<le> cell_row d \<and> cell_row d < totalRows grid
       \<and> 0 \<le> cell_col d \<and> cell_col d < totalCols grid"
proof -
  let ?vr = "visibleRange (Some cont) (scrollPosition st) (totalRows grid) (totalCols grid)
               (columnWidths st)"
  from assms have "(cell_row d, cell_col d)
      \<in> (\<lambda>d. (cell_row d, cell_col d)) ` set (renderCells grid st ?vr)"
    unfolding render_def by (rule imageI)
  then have "(cell_row d, cell_col d) \<in> {startRow ?vr..<endRow ?vr} \<times> {startCol ?vr..<endCol ?vr}"
    by (simp only: renderCells_positions)
  moreover have "0 \<le> startRow ?vr \<and> endRow ?vr \<le> totalRows grid
      \<and> 0 \<le> startCol ?vr \<and> endCol ?vr \<le> totalCols grid"
    by (rule visibleRange_measured_bounds [OF totalCols_nonneg])
  ultimately show ?thesis by auto
qed


text \<open>
  Claim C2. The render step should produce a descriptor only for cells inside the grid
  and inside the visible range, also before the container is measured. On the first
  render of the one-cell grid the fallback range of line 868 is used as it is, and a
  descriptor is produced for row 49, column 19, outside the grid; the measured path
  clamps to the grid (\<open>render_measured_within_grid\<close>).
\<close>

theorem render_unmeasured_outside_grid:
  "totalRows [[''a'']] = 1 \<and> totalCols [[''a'']] = 1
   \<and> (49, 19) \<in> (\<lambda>d. (cell_row d, cell_col d)) ` set (render None [[''a'']] initialState)"
proof -
  have "(\<lambda>d. (cell_row d, cell_col d)) ` set (render None [[''a'']] initialState)
      = {0..<50} \<times> {0..<20}"
    unfolding render_def by (simp only: renderCells_positions) (simp add: visibleRange_def)
  then show ?thesis by (simp add: totalRows_def totalCols_def)
qed



lemma ceiling_le_floor_add1: "\<lceil>x::real\<rceil> \<le> \<lfloor>x\<rfloor> + 1"
  by linarith

lemma rows_zero_container:
  "endRow (visibleRange (Some (0, 0)) scroll nRows nCols cw)
     - startRow (visibleRange (Some (0, 0)) scroll nRows nCols cw) \<le> 2 * VISIBLE_BUFFER"
proof -
  let ?y = "snd scroll"
  have e: "(?y + (0 - 25)) / 25 = ?y / 25 - 1" by simp
  have "\<lceil>(?y + (0 - 25)) / 25\<rceil> = \<lceil>?y / 25 - 1\<rceil>" by (simp only: e)
  then have "\<lceil>(?y + (0 - 25)) / 25\<rceil> = \<lceil>?y / 25\<rceil> - 1" by simp
  moreover have "\<lceil>?y / 25\<rceil> \<le> \<lfloor>?y / 25\<rfloor> + 1" by (rule ceiling_le_floor_add1)
  ultimately show ?thesis
    by (simp add: visibleRange_def Let_def CELL_HEIGHT_def VISIBLE_BUFFER_def)
qed






text \<open>
  Claim C4 as stated fails: with a container of zero width and height, the 2 x 2 grid at
  scroll position (0, 0) has a visible range of two rows and two columns.
\<close>

theorem visibleRange_zero_container_counterexample:
  "\<not> (startRow (visibleRange (Some (0, 0)) (0, 0) (totalRows [[''a'', ''b''], [''c'', ''d'']])
            (totalCols [[''a'', ''b''], [''c'', ''d'']]) Map.empty)
        = endRow (visibleRange (Some (0, 0)) (0, 0) (totalRows [[''a'', ''b''], [''c'', ''d'']])
            (totalCols [[''a'', ''b''], [''c'', ''d'']]) Map.empty)
      \<and> startCol (visibleRange (Some (0, 0)) (0, 0) (totalRows [[''a'', ''b''], [''c'', ''d'']])
            (totalCols [[''a'', ''b''], [''c'', ''d'']]) Map.empty)
        = endCol (visibleRange (Some (0, 0)) (0, 0) (totalRows [[''a'', ''b''], [''c'', ''d'']])
            (totalCols [[''a'', ''b''], [''c'', ''d'']]) Map.empty))
   \<and> length (render (Some (0, 0)) [[''a'', ''b''], [''c'', ''d'']] initialState) = 4"
  by code_simp

text \<open>
  Claim C4, amended. With a container of zero width and height the visible range holds
  no row of the viewport, only the buffer around the scroll position: at most
  \<open>2 * VISIBLE_BUFFER\<close> rows. It lies within the grid, and it contains no cell when the
  grid has no rows or no columns.
\<close>

theorem visibleRange_zero_container:
  "endRow (visibleRange (Some (0, 0)) scroll (totalRows grid) (totalCols grid) cw)
     - startRow (visibleRange (Some (0, 0)) scroll (totalRows grid) (totalCols grid) cw)
     \<le> 2 * VISIBLE_BUFFER
   \<and> 0 \<le> startRow (visibleRange (Some (0, 0)) scroll (totalRows grid) (totalCols grid) cw)
   \<and> endRow (visibleRange (Some (0, 0)) scroll (totalRows grid) (totalCols grid) cw)
       \<le> totalRows grid
   \<and> 0 \<le> startCol (visibleRange (Some (0, 0)) scroll (totalRows grid) (totalCols grid) cw)
   \<and> endCol (visibleRange (Some (0, 0)) scroll (totalRows grid) (totalCols grid) cw)
       \<le> totalCols grid
   \<and> (totalRows grid = 0 \<or> totalCols grid = 0 \<longrightarrow>
        {startRow (visibleRange (Some (0, 0)) scroll (totalRows grid) (totalCols grid) cw)
           ..< endRow (visibleRange (Some (0, 0)) scroll (totalRows grid) (totalCols grid) cw)}
        \<times> {startCol (visibleRange (Some (0, 0)) scroll (totalRows grid) (totalCols grid) cw)
           ..< endCol (visibleRange (Some (0, 0)) scroll (totalRows grid) (totalCols grid) cw)}
        = {})"
proof -
  let ?vr = "visibleRange (Some (0, 0)) scroll (totalRows grid) (totalCols grid) cw"
  have rows: "endRow ?vr - startRow ?vr \<le> 2 * VISIBLE_BUFFER"
    by (rule rows_zero_container)
  have b: "0 \<le> startRow ?vr \<and> endRow ?vr \<le> totalRows grid
         \<and> 0 \<le> startCol ?vr \<and> endCol ?vr \<le> totalCols grid"
    by (rule visibleRange_measured_bounds [OF totalCols_nonneg])
  have "{startRow ?vr..<endRow ?vr} \<times> {startCol ?vr..<endCol ?vr} = {}"
    if "totalRows grid = 0 \<or> totalCols grid = 0"
    using that b by auto
  with rows b show ?thesis by blast
qed

theorem visibleRange_zero_container_witness:
  "totalRows [] = 0
   \<and> {startRow (visibleRange (Some (0, 0)) (0, 0) (totalRows []) (totalCols []) Map.empty)
         ..< endRow (visibleRange (Some (0, 0)) (0, 0) (totalRows []) (totalCols []) Map.empty)}
      \<times> {startCol (visibleRange (Some (0, 0)) (0, 0) (totalRows []) (totalCols []) Map.empty)
         ..< endCol (visibleRange (Some (0, 0)) (0, 0) (totalRows []) (totalCols []) Map.empty)}
      = {}
   \<and> endRow (visibleRange (Some (0, 0)) (0, 30) (totalRows [[''a''], [''b'']])
         (totalCols [[''a''], [''b'']]) Map.empty)
       - startRow (visibleRange (Some (0, 0)) (0, 30) (totalRows [[''a''], [''b'']])
         (totalCols [[''a''], [''b'']]) Map.empty) \<le> 10"
proof -
  have z: "totalRows [] = 0" by (simp add: totalRows_def)
  show ?thesis
    using z visibleRange_zero_container [of "(0, 0)" "[]" Map.empty]
      visibleRange_zero_container [of "(0, 30)" "[[''a''], [''b'']]" Map.empty]
    by (simp add: VISIBLE_BUFFER_def)
qed




section \<open>The selection rectangle\<close>

lemma selection_after_drag:
  "selection (fst (handleMouseMove props r2 c2 (fst (handleMouseDown props r1 c1 st))))
     = Some \<lparr>sel_start = (r1, c1), sel_end = (r2, c2)\<rparr>"
  by (simp add: handleMouseMove_def handleMouseDown_def Let_def)

lemma isCellSelected_after_drag:
  "isCellSelected (fst (handleMouseMove props r2 c2 (fst (handleMouseDown props r1 c1 st)))) r c
     = (min r1 r2 \<le> r \<and> r \<le> max r1 r2 \<and> min c1 c2 \<le> c \<and> c \<le> max c1 c2)"
  by (simp add: isCellSelected_def selection_after_drag Let_def)

text \<open>
  Claim C9. Selection membership is symmetric in anchor and focus: pressing on
  \<open>(r1, c1)\<close> and dragging to \<open>(r2, c2)\<close> selects the same cells as pressing on
  \<open>(r2, c2)\<close> and dragging to \<open>(r1, c1)\<close>, namely those between the minimum and the
  maximum of the two rows and of the two columns, bounds included.
\<close>

theorem selection_symmetric:
  "isCellSelected (fst (handleMouseMove props r2 c2 (fst (handleMouseDown props r1 c1 st)))) r c
     = isCellSelected (fst (handleMouseMove props r1 c1 (fst (handleMouseDown props r2 c2 st)))) r c
   \<and> isCellSelected (fst (handleMouseMove props r2 c2 (fst (handleMouseDown props r1 c1 st)))) r c
     = (min r1 r2 \<le> r \<and> r \<le> max r1 r2 \<and> min c1 c2 \<le> c \<and> c \<le> max c1 c2)"
  by (simp only: isCellSelected_after_drag min.commute [of r1 r2] max.commute [of r1 r2]
        min.commute [of c1 c2] max.commute [of c1 c2])

theorem selection_symmetric_witness:
  "isCellSelected (fst (handleMouseMove appProps 0 0 (fst (handleMouseDown appProps 2 2 initialState)))) 1 1
   \<and> isCellSelected (fst (handleMouseMove appProps 2 2 (fst (handleMouseDown appProps 0 0 initialState)))) 1 1
   \<and> \<not> isCellSelected (fst (handleMouseMove appProps 0 0 (fst (handleMouseDown appProps 2 2 initialState)))) 3 1
   \<and> \<not> isCellSelected (fst (handleMouseMove appProps 2 2 (fst (handleMouseDown appProps 0 0 initialState)))) 3 1"
  using selection_symmetric [of appProps 0 0 2 2 initialState 1 1]
    selection_symmetric [of appProps 0 0 2 2 initialState 3 1]
  by auto

section \<open>Pointer events while an edit session is open\<close>

text \<open>No edit session is open during a drag.\<close>

lemma hostReachable_no_drag:
  "hostReachable prev st \<Longrightarrow>
     (editingCell st \<noteq> None \<longrightarrow> \<not> isSelecting st)
     \<and> (prev = Some MouseUp \<longrightarrow> \<not> isSelecting st)"
proof (induction rule: hostReachable.induct)
  case host_init
  show ?case by (simp add: initialState_def)
next
  case (host_step prev st ev props grid)
  show ?case
  proof (cases ev)
    case (MouseDown r c)
    then show ?thesis
      by (simp add: handleMouseDown_def saveEditWith_def Let_def)
  next
    case (MouseMove r c)
    with host_step.IH show ?thesis
      by (auto simp add: handleMouseMove_def Let_def split: option.split)
  next
    case MouseUp
    then show ?thesis by (simp add: handleMouseUp_def)
  next
    case (DoubleClick r c)
    with host_step.hyps(2) have "prev = Some MouseUp" by simp
    with host_step.IH DoubleClick show ?thesis
      by (simp add: handleDoubleClick_def)
  next
    case (EditKeyDown key)
    with host_step.IH show ?thesis
      by (simp add: handleEditKeyDown_def saveEdit_def saveEditWith_def)
  next
    case (ColumnResize clientX)
    with host_step.IH show ?thesis
      by (simp add: handleColumnResize_def Let_def split: option.split)
  qed (use host_step.IH in \<open>simp_all add: handleScroll_def handleEditChange_def saveEdit_def
         saveEditWith_def handleColumnResizeStart_def handleColumnResizeEnd_def\<close>)
qed


lemma hostReachable_example:
  "hostReachable (Some (DoubleClick 1 1))
     (runEvents appProps [[''a'', ''b''], [''c'', ''10'']]
        [MouseDown 1 1, MouseUp, MouseDown 1 1, MouseUp, DoubleClick 1 1] initialState)"
proof -
  let ?g = "[[''a'', ''b''], [''c'', ''10'']]"
  let ?s1 = "fst (step appProps ?g (MouseDown 1 1) initialState)"
  let ?s2 = "fst (step appProps ?g MouseUp ?s1)"
  let ?s3 = "fst (step appProps ?g (MouseDown 1 1) ?s2)"
  let ?s4 = "fst (step appProps ?g MouseUp ?s3)"
  let ?s5 = "fst (step appProps ?g (DoubleClick 1 1) ?s4)"
  have "hostReachable (Some (MouseDown 1 1)) ?s1"
    by (rule host_step [OF host_init]) simp
  then have "hostReachable (Some MouseUp) ?s2"
    by (rule host_step) simp
  then have "hostReachable (Some (MouseDown 1 1)) ?s3"
    by (rule host_step) simp
  then have "hostReachable (Some MouseUp) ?s4"
    by (rule host_step) simp
  then have "hostReachable (Some (DoubleClick 1 1)) ?s5"
    by (rule host_step) simp
  then show ?thesis by (simp only: runEvents_def fold_simps id_apply comp_apply)
qed

text \<open>
  Claim C3 as stated fails: with the editor open on \<open>(1, 1)\<close> and that cell selected,
  a press on \<open>(0, 0)\<close> changes the selection.
\<close>

theorem pointer_while_editing_counterexample:
  "editingCell (runEvents appProps [[''a'', ''b''], [''c'', ''10'']]
       [MouseDown 1 1, MouseUp, MouseDown 1 1, MouseUp, DoubleClick 1 1] initialState)
     = Some (1, 1)
   \<and> selection (fst (step appProps [[''a'', ''b''], [''c'', ''10'']] (MouseDown 0 0)
        (runEvents appProps [[''a'', ''b''], [''c'', ''10'']]
           [MouseDown 1 1, MouseUp, MouseDown 1 1, MouseUp, DoubleClick 1 1] initialState)))
     \<noteq> selection (runEvents appProps [[''a'', ''b''], [''c'', ''10'']]
           [MouseDown 1 1, MouseUp, MouseDown 1 1, MouseUp, DoubleClick 1 1] initialState)"
  by code_simp

text \<open>
  Claim C3, amended. While an edit session is open, a pointer move over any cell changes
  nothing and calls nothing, in every state with no drag active (\<open>isSelecting\<close> false)
  and so in every state reached when the host delivers each double click right after a
  release. A pointer press on any cell does change the selection: it closes the edit
  session and selects exactly the pressed cell.
\<close>

theorem pointer_while_editing:
  "(editingCell st \<noteq> None \<and> (\<not> isSelecting st \<or> hostReachable prev st) \<longrightarrow>
      handleMouseMove props r c st = (st, []))
   \<and> selection (fst (handleMouseDown props r c st)) = Some \<lparr>sel_start = (r, c), sel_end = (r, c)\<rparr>
   \<and> editingCell (fst (handleMouseDown props r c st)) = None"
proof -
  have move: "handleMouseMove props r c st = (st, [])" if "\<not> isSelecting st"
    using that by (simp add: handleMouseMove_def split: option.split)
  have "\<not> isSelecting st" if "editingCell st \<noteq> None" "\<not> isSelecting st \<or> hostReachable prev st"
    using that hostReachable_no_drag [of prev st] by blast
  with move have a: "editingCell st \<noteq> None \<and> (\<not> isSelecting st \<or> hostReachable prev st) \<longrightarrow>
      handleMouseMove props r c st = (st, [])"
    by blast
  have b: "selection (fst (handleMouseDown props r c st)) = Some \<lparr>sel_start = (r, c), sel_end = (r, c)\<rparr>"
    and c: "editingCell (fst (handleMouseDown props r c st)) = None"
    by (simp_all add: handleMouseDown_def saveEditWith_def Let_def)
  from a b c show ?thesis by blast
qed

theorem pointer_while_editing_witness:
  "editingCell (runEvents appProps [[''a'', ''b''], [''c'', ''10'']]
       [MouseDown 1 1, MouseUp, MouseDown 1 1, MouseUp, DoubleClick 1 1] initialState) \<noteq> None
   \<and> hostReachable (Some (DoubleClick 1 1))
       (runEvents appProps [[''a'', ''b''], [''c'', ''10'']]
          [MouseDown 1 1, MouseUp, MouseDown 1 1, MouseUp, DoubleClick 1 1] initialState)
   \<and> selection (fst (handleMouseMove appProps 0 1
        (runEvents appProps [[''a'', ''b''], [''c'', ''10'']]
           [MouseDown 1 1, MouseUp, MouseDown 1 1, MouseUp, DoubleClick 1 1] initialState)))
     = Some \<lparr>sel_start = (1, 1), sel_end = (1, 1)\<rparr>"
proof -
  let ?s = "runEvents appProps [[''a'', ''b''], [''c'', ''10'']]
       [MouseDown 1 1, MouseUp, MouseDown 1 1, MouseUp, DoubleClick 1 1] initialState"
  have e: "editingCell ?s \<noteq> None" by code_simp
  have s: "selection ?s = Some \<lparr>sel_start = (1, 1), sel_end = (1, 1)\<rparr>" by code_simp
  note h = hostReachable_example
  from pointer_while_editing [of ?s "Some (DoubleClick 1 1)" appProps 0 1] e h
  have "handleMouseMove appProps 0 1 ?s = (?s, [])" by blast
  with e h s show ?thesis by simp
qed

section \<open>Cancelling and committing an edit\<close>

text \<open>
  Claim C7. Cancelling with the Escape key leaves the session of the parent, and so every
  cell of the grid, as it was, calls no callback, empties the draft and returns the
  edit controller to idle.
\<close>

theorem cancel_discards_draft:
  "dispatch (EditKeyDown ''Escape'') sys
     = Inr (\<lparr>session = session sys,
              grid_state = fst (handleEditKeyDown appProps ''Escape'' (grid_state sys))\<rparr>, [])
   \<and> editingCell (fst (handleEditKeyDown props ''Escape'' st)) = None
   \<and> editValue (fst (handleEditKeyDown props ''Escape'' st)) = []
   \<and> snd (handleEditKeyDown props ''Escape'' st) = []"
proof -
  have escape: "handleEditKeyDown p ''Escape'' s
      = (s\<lparr>editingCell := None, editValue := [],
            capturedEditValue := (if editingCell s = None then capturedEditValue s else [])\<rparr>, [])"
    for p s
    by (simp add: handleEditKeyDown_def)
  have idle: "editingCell (fst (handleEditKeyDown props ''Escape'' st)) = None"
    and empty: "editValue (fst (handleEditKeyDown props ''Escape'' st)) = []"
    and silent: "snd (handleEditKeyDown props ''Escape'' st) = []"
    by (simp_all add: escape)
  have "snd (step appProps (sheetData (session sys)) (EditKeyDown ''Escape'') (grid_state sys)) = []"
    and "fst (step appProps (sheetData (session sys)) (EditKeyDown ''Escape'') (grid_state sys))
      = fst (handleEditKeyDown appProps ''Escape'' (grid_state sys))"
    by (simp_all add: escape)
  then have "dispatch (EditKeyDown ''Escape'') sys
     = Inr (\<lparr>session = session sys,
              grid_state = fst (handleEditKeyDown appProps ''Escape'' (grid_state sys))\<rparr>, [])"
    by (simp add: dispatch_def Let_def)
  with idle empty silent show ?thesis by blast
qed

theorem cancel_discards_draft_witness:
  "map_sum id snd (dispatch (EditKeyDown ''Escape'') exampleEditing) = Inr []
   \<and> map_sum id (session \<circ> fst) (dispatch (EditKeyDown ''Escape'') exampleEditing)
       = Inr (session exampleEditing)
   \<and> editValue (grid_state exampleEditing) = ''20''
   \<and> editValue (fst (handleEditKeyDown appProps ''Escape'' (grid_state exampleEditing))) = []
   \<and> editingCell (fst (handleEditKeyDown appProps ''Escape'' (grid_state exampleEditing))) = None
   \<and> cellValue (sheetData (session exampleEditing)) 1 1 = ''10''"
proof -
  have v: "editValue (grid_state exampleEditing) = ''20''"
    by (simp add: exampleEditing_def)
  have old: "cellValue (sheetData (session exampleEditing)) 1 1 = ''10''"
    by code_simp
  from cancel_discards_draft [of exampleEditing appProps "grid_state exampleEditing"] v old
  show ?thesis by simp
qed


text \<open>Reading a row after the assignment to its column \<open>c\<close>.\<close>

lemma row_assign_read:
  fixes old :: "string list"
  assumes c: "0 \<le> c" and k: "0 \<le> k"
    and new_def: "new = (if c < int (length old) then old[nat c := v]
                    else old @ replicate (nat c - length old) [] @ [v])"
  shows "(if k < int (length new) then new ! nat k else [])
       = (if k = c then v else if k < int (length old) then old ! nat k else [])"
proof (cases "c < int (length old)")
  case True
  then have new: "new = old[nat c := v]" by (simp add: new_def)
  show ?thesis
  proof (cases "k = c")
    case True
    with \<open>c < int (length old)\<close> c show ?thesis by (simp add: new)
  next
    case False
    with c k have "nat k \<noteq> nat c" by simp
    then show ?thesis using False by (simp add: new)
  qed
next
  case False
  let ?pad = "nat c - length old"
  have new: "new = old @ replicate ?pad [] @ [v]" using False by (simp add: new_def)
  have len: "int (length new) = c + 1" using False c by (simp add: new)
  consider "k < int (length old)" | "int (length old) \<le> k" "k < c" | "k = c" | "c < k"
    by linarith
  then show ?thesis
  proof cases
    case 1
    then have "nat k < length old" using k by simp
    then have "new ! nat k = old ! nat k" by (simp add: new nth_append)
    with 1 False len show ?thesis by simp
  next
    case 2
    then have a: "\<not> nat k < length old" and b: "nat k - length old < ?pad"
      using k c by simp_all
    have "new ! nat k = (replicate ?pad [] @ [v]) ! (nat k - length old)"
      using a by (simp add: new nth_append)
    also have "\<dots> = []" using b by (simp add: nth_append)
    finally show ?thesis using 2 len by simp
  next
    case 3
    have "nat c = length old + ?pad" using False c by simp
    then have "new ! nat c = v"
      unfolding new by (simp add: nth_append)
    with 3 len show ?thesis by simp
  next
    case 4
    with len False show ?thesis by simp
  qed
qed

lemma setCell_inside:
  assumes "0 \<le> r" "r < int (length d)" "0 \<le> c"
  shows "\<exists>d'. setCell d r c v = Inr d'
           \<and> cellValue d' r c = v
           \<and> (\<forall>r' c'. (r', c') \<noteq> (r, c) \<longrightarrow> cellValue d' r' c' = cellValue d r' c')"
proof -
  let ?old = "d ! nat r"
  let ?new = "if c < int (length ?old) then ?old[nat c := v]
              else ?old @ replicate (nat c - length ?old) [] @ [v]"
  let ?d' = "d[nat r := ?new]"
  have set: "setCell d r c v = Inr ?d'"
    using assms by (simp add: setCell_def Let_def)
  have r: "nat r < length d" using assms by simp
  have read: "cellValue ?d' r k
      = (if k = c then v else if k < int (length ?old) then ?old ! nat k else [])"
    if "0 \<le> k" for k
  proof -
    have row: "?d' ! nat r = ?new" using r by simp
    have "cellValue ?d' r k
        = (if k < int (length (?d' ! nat r)) then ?d' ! nat r ! nat k else [])"
      using assms that by (simp add: cellValue_def)
    also have "\<dots> = (if k < int (length ?new) then ?new ! nat k else [])"
      by (simp only: row)
    also have "\<dots> = (if k = c then v else if k < int (length ?old) then ?old ! nat k else [])"
      by (rule row_assign_read [OF \<open>0 \<le> c\<close> that refl])
    finally show ?thesis .
  qed
  have here: "cellValue ?d' r c = v"
    using read [OF \<open>0 \<le> c\<close>] by simp
  have other: "cellValue ?d' r' c' = cellValue d r' c'" if ne: "(r', c') \<noteq> (r, c)" for r' c'
  proof (cases "r' = r")
    case True
    with ne have c': "c' \<noteq> c" by simp
    show ?thesis
    proof (cases "0 \<le> c'")
      case True
      from read [OF this] c' \<open>r' = r\<close> assms True show ?thesis
        by (simp add: cellValue_def)
    next
      case False
      then show ?thesis by (simp add: cellValue_def)
    qed
  next
    case False
    show ?thesis
    proof (cases "0 \<le> r' \<and> r' < int (length d)")
      case True
      with False assms have "nat r' \<noteq> nat r" by auto
      then show ?thesis by (simp add: cellValue_def)
    next
      case False
      then show ?thesis by (auto simp add: cellValue_def)
    qed
  qed
  from set here other show ?thesis by blast
qed

lemma updateFirst_found:
  assumes "find (\<lambda>sh. sheet_name sh = n) shs = Some sh"
    and "f sh = Inr sh'" and "sheet_name sh' = sheet_name sh"
  shows "\<exists>shs'. updateFirst n f shs = Inr shs'
           \<and> find (\<lambda>sh. sheet_name sh = n) shs' = Some sh'"
  using assms
proof (induction shs)
  case Nil
  then show ?case by simp
next
  case (Cons x xs)
  show ?case
  proof (cases "sheet_name x = n")
    case True
    with Cons.prems have "x = sh" by simp
    with True Cons.prems show ?thesis by simp
  next
    case False
    with Cons.prems have "find (\<lambda>sh. sheet_name sh = n) xs = Some sh" by simp
    from Cons.IH [OF this Cons.prems(2,3)] obtain xs'
      where "updateFirst n f xs = Inr xs'" "find (\<lambda>sh. sheet_name sh = n) xs' = Some sh'"
      by blast
    with False show ?thesis by simp
  qed
qed

lemma handleCellChange_inside:
  assumes "0 \<le> r" "r < totalRows (sheetData s)" "0 \<le> c"
  shows "\<exists>s'. handleCellChange r c v s = Inr s'
           \<and> cellValue (sheetData s') r c = v
           \<and> (\<forall>r' c'. (r', c') \<noteq> (r, c) \<longrightarrow>
                 cellValue (sheetData s') r' c' = cellValue (sheetData s) r' c')"
proof -
  let ?P = "\<lambda>sh. sheet_name sh = activeSheet s"
  let ?f = "\<lambda>sh. case sheet_data sh of
                      None \<Rightarrow> Inr sh
                    | Some d \<Rightarrow> (case setCell d r c v of
                                   Inl e \<Rightarrow> Inl e
                                 | Inr d' \<Rightarrow> Inr (sh\<lparr>sheet_data := Some d'\<rparr>))"
  from assms have nonempty: "sheetData s \<noteq> []" by (auto simp add: totalRows_def)
  then obtain sh where sh: "find ?P (sheets s) = Some sh"
    by (cases "find ?P (sheets s)") (simp_all add: sheetData_def)
  with nonempty obtain d where d: "sheet_data sh = Some d"
    by (cases "sheet_data sh") (simp_all add: sheetData_def)
  have data: "sheetData s = d" using sh d by (simp add: sheetData_def)
  with assms have "r < int (length d)" by (simp add: totalRows_def)
  from setCell_inside [OF \<open>0 \<le> r\<close> this \<open>0 \<le> c\<close>, of v] obtain d'
    where d': "setCell d r c v = Inr d'" "cellValue d' r c = v"
      "\<forall>r' c'. (r', c') \<noteq> (r, c) \<longrightarrow> cellValue d' r' c' = cellValue d r' c'"
    by blast
  have f: "?f sh = Inr (sh\<lparr>sheet_data := Some d'\<rparr>)" using d d' by simp
  from updateFirst_found [where f = ?f, OF sh f] obtain shs'
    where shs': "updateFirst (activeSheet s) ?f (sheets s) = Inr shs'"
      "find ?P shs' = Some (sh\<lparr>sheet_data := Some d'\<rparr>)"
    by auto
  have res: "handleCellChange r c v s = Inr (s\<lparr>sheets := shs'\<rparr>)"
    using shs'(1) by (simp add: handleCellChange_def)
  have "sheetData (s\<lparr>sheets := shs'\<rparr>) = d'"
    using shs'(2) by (simp add: sheetData_def)
  with res d' data show ?thesis by simp
qed

text \<open>
  Claim C6 as stated fails: the write is the parent's, and the parent writes only into a
  sheet that has data. On the sheet without data the commit calls the callback with the
  draft, the session stays as it was, and the cell does not read the draft.
\<close>

theorem commit_writes_draft_counterexample:
  "dispatchAll noDataEvents noDataSystem = Inr noDataEditing
   \<and> editingCell (grid_state noDataEditing) = Some (0, 0)
   \<and> editValue (grid_state noDataEditing) = ''x''
   \<and> map_sum id snd (dispatch (EditKeyDown ''Enter'') noDataEditing)
       = Inr [CellChange 0 0 ''x'']
   \<and> map_sum id (session \<circ> fst) (dispatch (EditKeyDown ''Enter'') noDataEditing)
       = Inr (session noDataEditing)
   \<and> cellValue (sheetData (session noDataEditing)) 0 0 \<noteq> ''x''"
proof -
  have reached: "dispatchAll noDataEvents noDataSystem = Inr noDataEditing"
    by (simp add: noDataEvents_def noDataSystem_def noDataEditing_def dispatch_def
        initialState_def appProps_def sheetData_def handleMouseDown_def handleMouseUp_def
        handleDoubleClick_def handleEditChange_def cellValue_def Let_def)
  have cell: "editingCell (grid_state noDataEditing) = Some (0, 0)"
    and draft: "editValue (grid_state noDataEditing) = ''x''"
    by (simp_all add: noDataEditing_def)
  have calls: "map_sum id snd (dispatch (EditKeyDown ''Enter'') noDataEditing)
       = Inr [CellChange 0 0 ''x'']"
    by code_simp
  have same: "map_sum id (session \<circ> fst) (dispatch (EditKeyDown ''Enter'') noDataEditing)
       = Inr (session noDataEditing)"
    by code_simp
  have unread: "cellValue (sheetData (session noDataEditing)) 0 0 \<noteq> ''x''"
    by code_simp
  from reached cell draft calls same unread show ?thesis by blast
qed

text \<open>
  Claim C6, amended. With an edit session open on \<open>(r, c)\<close> and the draft \<open>v\<close>,
  committing with the Enter key or by blur calls the mutation callback exactly once, with
  \<open>(r, c, v)\<close>, and leaves the edit controller idle with an empty draft. When
  \<open>(r, c)\<close> is on a row of the grid (\<open>0 \<le> r < totalRows\<close>, \<open>0 \<le> c\<close>), the parent
  writes \<open>v\<close> into the grid at \<open>(r, c)\<close> and leaves every other cell as it reads.
\<close>

theorem commit_writes_draft:
  assumes "editingCell (grid_state sys) = Some (r, c)"
    and "ev = EditKeyDown ''Enter'' \<or> ev = EditBlur"
  shows "snd (step appProps (sheetData (session sys)) ev (grid_state sys))
           = [CellChange r c (editValue (grid_state sys))]
         \<and> editingCell (fst (step appProps (sheetData (session sys)) ev (grid_state sys))) = None
         \<and> editValue (fst (step appProps (sheetData (session sys)) ev (grid_state sys))) = []
         \<and> (0 \<le> r \<and> r < totalRows (sheetData (session sys)) \<and> 0 \<le> c \<longrightarrow>
              (\<exists>sys'. dispatch ev sys = Inr (sys', [CellChange r c (editValue (grid_state sys))])
                 \<and> grid_state sys'
                     = fst (step appProps (sheetData (session sys)) ev (grid_state sys))
                 \<and> cellValue (sheetData (session sys')) r c = editValue (grid_state sys)
                 \<and> (\<forall>r' c'. (r', c') \<noteq> (r, c) \<longrightarrow>
                       cellValue (sheetData (session sys')) r' c'
                         = cellValue (sheetData (session sys)) r' c')))"
proof -
  let ?v = "editValue (grid_state sys)"
  let ?ui = "fst (saveEdit appProps (grid_state sys))"
  let ?res = "step appProps (sheetData (session sys)) ev (grid_state sys)"
  have step: "?res = (?ui, [CellChange r c ?v])"
    using assms by (auto simp add: handleEditKeyDown_def saveEdit_def saveEditWith_def appProps_def)
  have idle: "editingCell ?ui = None" and empty: "editValue ?ui = []"
    by (simp_all add: saveEdit_def saveEditWith_def)
  have written: "\<exists>sys'. dispatch ev sys = Inr (sys', [CellChange r c ?v])
      \<and> grid_state sys' = fst ?res
      \<and> cellValue (sheetData (session sys')) r c = ?v
      \<and> (\<forall>r' c'. (r', c') \<noteq> (r, c) \<longrightarrow>
            cellValue (sheetData (session sys')) r' c'
              = cellValue (sheetData (session sys)) r' c')"
    if inside: "0 \<le> r \<and> r < totalRows (sheetData (session sys)) \<and> 0 \<le> c"
  proof -
    from inside have r0: "0 \<le> r" and r1: "r < totalRows (sheetData (session sys))"
      and c0: "0 \<le> c" by simp_all
    from handleCellChange_inside [OF r0 r1 c0, of ?v] obtain s'
      where s': "handleCellChange r c ?v (session sys) = Inr s'"
        "cellValue (sheetData s') r c = ?v"
        "\<forall>r' c'. (r', c') \<noteq> (r, c) \<longrightarrow>
           cellValue (sheetData s') r' c' = cellValue (sheetData (session sys)) r' c'"
      by blast
    have "dispatch ev sys = Inr (\<lparr>session = s', grid_state = ?ui\<rparr>, [CellChange r c ?v])"
      using step s'(1) by (simp add: dispatch_def)
    then show ?thesis using s'(2,3) step by simp
  qed
  from step idle empty written show ?thesis by simp
qed

theorem commit_writes_draft_witness:
  "editingCell (grid_state exampleEditing) = Some (1, 1)
   \<and> editValue (grid_state exampleEditing) = ''20''
   \<and> cellValue (sheetData (session exampleEditing)) 1 1 = ''10''
   \<and> (1::int) < totalRows (sheetData (session exampleEditing))
   \<and> snd (step appProps (sheetData (session exampleEditing)) (EditKeyDown ''Enter'')
          (grid_state exampleEditing)) = [CellChange 1 1 ''20'']
   \<and> (\<exists>sys'. dispatch (EditKeyDown ''Enter'') exampleEditing = Inr (sys', [CellChange 1 1 ''20''])
         \<and> editingCell (grid_state sys') = None
         \<and> cellValue (sheetData (session sys')) 1 1 = ''20''
         \<and> cellValue (sheetData (session sys')) 0 1 = ''b'')"
proof -
  let ?res = "step appProps (sheetData (session exampleEditing)) (EditKeyDown ''Enter'')
          (grid_state exampleEditing)"
  have e: "editingCell (grid_state exampleEditing) = Some (1, 1)"
    and v: "editValue (grid_state exampleEditing) = ''20''"
    by (simp_all add: exampleEditing_def)
  have old: "cellValue (sheetData (session exampleEditing)) 1 1 = ''10''"
    and b: "cellValue (sheetData (session exampleEditing)) 0 1 = ''b''"
    and rows: "(1::int) < totalRows (sheetData (session exampleEditing))"
    by code_simp+
  have ev: "EditKeyDown ''Enter'' = EditKeyDown ''Enter'' \<or> EditKeyDown ''Enter'' = EditBlur"
    by simp
  note inst = commit_writes_draft [OF e ev]
  from inst have calls: "snd ?res = [CellChange 1 1 (editValue (grid_state exampleEditing))]"
    and idle: "editingCell (fst ?res) = None"
    by blast+
  from inst rows obtain sys'
    where "dispatch (EditKeyDown ''Enter'') exampleEditing
        = Inr (sys', [CellChange 1 1 (editValue (grid_state exampleEditing))])"
      "grid_state sys' = fst ?res"
      "cellValue (sheetData (session sys')) 1 1 = editValue (grid_state exampleEditing)"
      "\<forall>r' c'. (r', c') \<noteq> (1, 1) \<longrightarrow>
         cellValue (sheetData (session sys')) r' c'
           = cellValue (sheetData (session exampleEditing)) r' c'"
    by auto
  then have "dispatch (EditKeyDown ''Enter'') exampleEditing = Inr (sys', [CellChange 1 1 ''20''])
      \<and> editingCell (grid_state sys') = None
      \<and> cellValue (sheetData (session sys')) 1 1 = ''20''
      \<and> cellValue (sheetData (session sys')) 0 1 = ''b''"
    using v b idle by simp
  with e v old rows calls show ?thesis by auto
qed

text \<open>
  Outside the grid there is no row to write to: committing an edit opened on the cell
  \<open>(49, 19)\<close> of the first render makes the assignment of the parent throw.
\<close>

lemma phantom_cell_commit_raises:
  "map_sum id (\<lambda>sys. ())
     (dispatchAll [DoubleClick 49 19, EditChange ''x'', EditKeyDown ''Enter''] exampleSystem)
     = Inl TypeError"
  by code_simp

lemma exampleEditing_reached: "dispatchAll openEditEvents exampleSystem = Inr exampleEditing"
  by (simp add: openEditEvents_def exampleSystem_def exampleEditing_def dispatch_def
      initialState_def appProps_def sheetData_def handleMouseDown_def handleMouseUp_def
      handleDoubleClick_def handleEditChange_def cellValue_def Let_def)

text \<open>
  Claim C10. A pointer press while an edit session is open should commit the draft. On
  the example the editor is open on \<open>(1, 1)\<close> with the draft "20"; the press on
  \<open>(0, 0)\<close> calls the mutation callback with \<open>(1, 1, "10")\<close>, the value the editor
  was opened with, and the grid keeps "10".
\<close>

theorem mouse_down_commits_stale_draft:
  "dispatchAll openEditEvents exampleSystem = Inr exampleEditing
   \<and> editingCell (grid_state exampleEditing) = Some (1, 1)
   \<and> editValue (grid_state exampleEditing) = ''20''
   \<and> map_sum id snd (dispatch (MouseDown 0 0) exampleEditing)
       = Inr [CellChange 1 1 ''10'',
              SelectionChange \<lparr>sel_start = (0, 0), sel_end = (0, 0)\<rparr>]
   \<and> map_sum id (\<lambda>res. cellValue (sheetData (session (fst res))) 1 1)
         (dispatch (MouseDown 0 0) exampleEditing) = Inr ''10''"
proof -
  have a: "editingCell (grid_state exampleEditing) = Some (1, 1)"
    and b: "editValue (grid_state exampleEditing) = ''20''"
    by (simp_all add: exampleEditing_def)
  have c: "map_sum id snd (dispatch (MouseDown 0 0) exampleEditing)
       = Inr [CellChange 1 1 ''10'',
              SelectionChange \<lparr>sel_start = (0, 0), sel_end = (0, 0)\<rparr>]"
    by code_simp
  have d: "map_sum id (\<lambda>res. cellValue (sheetData (session (fst res))) 1 1)
         (dispatch (MouseDown 0 0) exampleEditing) = Inr ''10''"
    by code_simp
  from exampleEditing_reached a b c d show ?thesis by blast
qed

section \<open>Column widths\<close>

lemma step_widths_ok: "widths_ok st \<Longrightarrow> widths_ok (fst (step props grid ev st))"
proof (cases ev)
  case (ColumnResize clientX)
  assume ok: "widths_ok st"
  show ?thesis
  proof (cases "resizingColumn st")
    case None
    with ok ColumnResize show ?thesis by (simp add: handleColumnResize_def)
  next
    case (Some c)
    have "MIN_CELL_WIDTH \<le> max MIN_CELL_WIDTH (resizeStartWidth st + (clientX - resizeStartX st))"
      by simp
    with ok Some ColumnResize show ?thesis
      by (simp add: handleColumnResize_def widths_ok_def Let_def)
  qed
next
  case (MouseDown r c)
  assume "widths_ok st"
  with MouseDown show ?thesis
    by (simp add: handleMouseDown_def saveEditWith_def widths_ok_def Let_def)
next
  case (MouseMove r c)
  assume "widths_ok st"
  with MouseMove show ?thesis
    by (simp add: handleMouseMove_def widths_ok_def Let_def split: option.split)
next
  case (EditKeyDown key)
  assume "widths_ok st"
  with EditKeyDown show ?thesis
    by (simp add: handleEditKeyDown_def saveEdit_def saveEditWith_def widths_ok_def)
qed (simp_all add: widths_ok_def handleScroll_def handleMouseUp_def handleDoubleClick_def
       handleEditChange_def saveEdit_def saveEditWith_def handleColumnResizeStart_def
       handleColumnResizeEnd_def)

lemma reachable_widths_ok: "reachable st \<Longrightarrow> widths_ok st"
proof (induction rule: reachable.induct)
  case reachable_init
  show ?case by (simp add: widths_ok_def initialState_def)
next
  case (reachable_step st props grid ev)
  then show ?case by (simp add: step_widths_ok)
qed

lemma widthOf_floor: "widths_ok st \<Longrightarrow> MIN_CELL_WIDTH \<le> widthOf (columnWidths st) c"
  by (auto simp add: widths_ok_def widthOf_def MIN_CELL_WIDTH_def DEFAULT_CELL_WIDTH_def
      split: option.split)

text \<open>
  Claim C8. A resize writes \<open>max MIN_CELL_WIDTH (startWidth + displacement)\<close> for the
  column being resized, whatever the displacement. Every handler preserves the invariant
  that each stored width is at least \<open>MIN_CELL_WIDTH\<close>, so in every reachable state the
  stored widths and the widths reported for any column are at least \<open>MIN_CELL_WIDTH\<close>.
\<close>

theorem column_width_floor:
  "(resizingColumn st = Some c \<longrightarrow>
      columnWidths (fst (handleColumnResize clientX st)) c
        = Some (max MIN_CELL_WIDTH (resizeStartWidth st + (clientX - resizeStartX st))))
   \<and> columnWidths (fst (handleColumnResize x1 (fst (handleColumnResizeStart c x0 st)))) c
        = Some (max MIN_CELL_WIDTH (widthOf (columnWidths st) c + (x1 - x0)))
   \<and> (widths_ok st \<longrightarrow> widths_ok (fst (step props grid ev st)))
   \<and> (reachable st \<longrightarrow> widths_ok st \<and> MIN_CELL_WIDTH \<le> widthOf (columnWidths st) k)"
proof -
  have a: "resizingColumn st = Some c \<longrightarrow>
      columnWidths (fst (handleColumnResize clientX st)) c
        = Some (max MIN_CELL_WIDTH (resizeStartWidth st + (clientX - resizeStartX st)))"
    by (simp add: handleColumnResize_def Let_def)
  have b: "columnWidths (fst (handleColumnResize x1 (fst (handleColumnResizeStart c x0 st)))) c
        = Some (max MIN_CELL_WIDTH (widthOf (columnWidths st) c + (x1 - x0)))"
    by (simp add: handleColumnResize_def handleColumnResizeStart_def Let_def)
  have d: "reachable st \<longrightarrow> widths_ok st \<and> MIN_CELL_WIDTH \<le> widthOf (columnWidths st) k"
    by (simp add: reachable_widths_ok widthOf_floor)
  from a b d step_widths_ok show ?thesis by blast
qed

theorem column_width_floor_witness:
  "reachable (runEvents appProps [] [ColumnResizeStart 3 200, ColumnResize 50] initialState)
   \<and> columnWidths (runEvents appProps [] [ColumnResizeStart 3 200, ColumnResize 50] initialState) 3
       = Some MIN_CELL_WIDTH
   \<and> widths_ok (runEvents appProps [] [ColumnResizeStart 3 200, ColumnResize 50] initialState)
   \<and> MIN_CELL_WIDTH
       \<le> widthOf (columnWidths
            (runEvents appProps [] [ColumnResizeStart 3 200, ColumnResize 50] initialState)) 3"
proof -
  let ?s = "runEvents appProps [] [ColumnResizeStart 3 200, ColumnResize 50] initialState"
  have run: "?s = fst (step appProps [] (ColumnResize 50)
      (fst (step appProps [] (ColumnResizeStart 3 200) initialState)))"
    by (simp add: runEvents_def)
  have r: "reachable ?s"
    unfolding run by (intro reachable_step reachable_init)
  have v: "max MIN_CELL_WIDTH (widthOf (columnWidths initialState) 3 + (50 - 200))
      = MIN_CELL_WIDTH"
    by (simp add: widthOf_def initialState_def MIN_CELL_WIDTH_def DEFAULT_CELL_WIDTH_def)
  have "columnWidths (fst (handleColumnResize 50 (fst (handleColumnResizeStart 3 200 initialState)))) 3
      = Some (max MIN_CELL_WIDTH (widthOf (columnWidths initialState) 3 + (50 - 200)))"
    using column_width_floor [of initialState 3 0 50 200 appProps "[]" MouseUp 3] by blast
  then have w: "columnWidths ?s 3 = Some MIN_CELL_WIDTH"
    unfolding run v by (simp only: step.simps)
  from r w column_width_floor [of ?s 3 0 50 200 appProps "[]" MouseUp 3]
  show ?thesis by blast
qed

end
